theory Spec2Isabelle
  imports Main
begin

section \<open>JavaScript values and plain objects\<close>

text \<open>
  This theory models the virtuals plugin of Bookshelf (\<^verbatim>\<open>lib/plugins/virtuals.js\<close>):
  the methods \<^verbatim>\<open>get\<close>, \<^verbatim>\<open>set\<close>, \<^verbatim>\<open>save\<close> and \<^verbatim>\<open>toJSON\<close> that it
  overrides on the model, the lodash methods it mixes in, and its helpers
  \<^verbatim>\<open>getVirtual\<close>, \<^verbatim>\<open>getVirtuals\<close> and \<^verbatim>\<open>setVirtual\<close>. The constructor, which
  also installs every virtual as an accessor property of the instance, is left out.

  The values that flow through the plugin are attribute values, option bags and the
  per-virtual parameters. Numbers are the integers (no fractions, no NaN). A plain object
  is the list of its own enumerable properties in the order JavaScript enumerates them,
  every name once. An assignment puts a new name last, as JavaScript does for every name
  that is not an array index; where a new array-index name would stand in the order is
  not modelled. Properties inherited from \<^verbatim>\<open>Object.prototype\<close> are not modelled
  either: a lookup finds own properties only.
\<close>

datatype val =
    VUndefined
  | VNull
  | VBool bool
  | VNum int
  | VStr string
  | VObj "(string \<times> val) list"

type_synonym obj = "(string \<times> val) list"

text \<open>
  What the caller of a function that throws receives: the value of a \<^verbatim>\<open>throw\<close>
  statement, or the engine's own error for an exhausted call stack (the RangeError
  "Maximum call stack size exceeded" of a setter that re-enters \<^verbatim>\<open>set\<close> without
  end).
\<close>

datatype error = Thrown val | StackOverflow

text \<open>JavaScript truthiness: what \<^verbatim>\<open>if (v)\<close>, \<^verbatim>\<open>v && ...\<close> and \<^verbatim>\<open>v || ...\<close> test.\<close>

fun truthy :: "val \<Rightarrow> bool" where
  "truthy VUndefined = False"
| "truthy VNull = False"
| "truthy (VBool b) = b"
| "truthy (VNum n) = (n \<noteq> 0)"
| "truthy (VStr s) = (s \<noteq> [])"
| "truthy (VObj ps) = True"

text \<open>\<^verbatim>\<open>o[k]\<close> on a plain object: the value stored, \<^verbatim>\<open>undefined\<close> for a missing name.\<close>

definition lookup :: "obj \<Rightarrow> string \<Rightarrow> val" where
  "lookup ob k = (case map_of ob k of None \<Rightarrow> VUndefined | Some v \<Rightarrow> v)"

text \<open>
  \<^verbatim>\<open>v.k\<close> on any value that is not null or undefined (the source guards every such
  access with \<^verbatim>\<open>v && ...\<close>): a primitive has no own property of that name.
\<close>

definition field :: "val \<Rightarrow> string \<Rightarrow> val" where
  "field v k = (case v of VObj ob \<Rightarrow> lookup ob k | _ \<Rightarrow> VUndefined)"

text \<open>\<^verbatim>\<open>v && v.k\<close>: a falsy \<open>v\<close> is the result, else the property.\<close>

definition and_field :: "val \<Rightarrow> string \<Rightarrow> val" where
  "and_field v k = (if truthy v then field v k else v)"

text \<open>\<^verbatim>\<open>o[k] = v\<close>: an existing property keeps its place, a new one goes last.\<close>

fun assign :: "obj \<Rightarrow> string \<Rightarrow> val \<Rightarrow> obj" where
  "assign [] k v = [(k, v)]"
| "assign (p # ps) k v = (if fst p = k then (k, v) # ps else p # assign ps k v)"

text \<open>\<^verbatim>\<open>delete o[k]\<close>.\<close>

definition delete_key :: "string \<Rightarrow> obj \<Rightarrow> obj" where
  "delete_key k ob = filter (\<lambda>p. fst p \<noteq> k) ob"

text \<open>
  lodash \<^verbatim>\<open>_.extend(dst, src)\<close> (\<^verbatim>\<open>assignIn\<close>): every property of \<open>src\<close>, in
  order, is assigned to \<open>dst\<close>; the result is the updated \<open>dst\<close>.
\<close>

definition extend' :: "obj \<Rightarrow> obj \<Rightarrow> obj" where
  "extend' dst src = fold (\<lambda>p d. assign d (fst p) (snd p)) src dst"

text \<open>Decimal digits of a number, as \<^verbatim>\<open>String(i)\<close> writes an array index.\<close>

fun decimal :: "nat \<Rightarrow> string" where
  "decimal n =
     (if n < 10 then [''0123456789'' ! n]
      else decimal (n div 10) @ [''0123456789'' ! (n mod 10)])"

declare decimal.simps [simp del]

text \<open>
  The string a value becomes when it is used as a property name
  (\<^verbatim>\<open>result[value] = key\<close> in lodash's \<^verbatim>\<open>invert\<close>).
\<close>

fun toString :: "val \<Rightarrow> string" where
  "toString VUndefined = ''undefined''"
| "toString VNull = ''null''"
| "toString (VBool b) = (if b then ''true'' else ''false'')"
| "toString (VNum n) = (if n < 0 then CHR ''-'' # decimal (nat (- n)) else decimal (nat n))"
| "toString (VStr s) = s"
| "toString (VObj ps) = ''[object Object]''"

section \<open>The model instance and its class\<close>

text \<open>
  The instance state the plugin reads and writes: the live attribute set
  (\<^verbatim>\<open>this.attributes\<close>) and the capture buffer (\<^verbatim>\<open>this.patchAttributes\<close>), which
  exists only while a patch save runs (\<open>None\<close>: the property is absent).
\<close>

record model =
  attributes :: obj
  patchAttributes :: "obj option"

text \<open>
  A getter is a function of the instance it is bound to and of its arguments; it may
  throw. The first argument of \<^verbatim>\<open>set\<close> (and \<^verbatim>\<open>save\<close>) is null, undefined, a bag
  \<^verbatim>\<open>{k: v, ...}\<close> or a name.

  A setter is called with the instance and the value written. What it does to the
  instance it does through the accessor: it is the sequence of \<^verbatim>\<open>this.set(...)\<close> calls
  it makes, which a \<^verbatim>\<open>throw\<close> may end.
\<close>

type_synonym getter = "model \<Rightarrow> val list \<Rightarrow> error + val"

datatype key = KNull | KUndefined | KBag obj | KName string

datatype action = CallSet key val val | Throw val

type_synonym setter = "model \<Rightarrow> val \<Rightarrow> action list"

text \<open>
  An entry of the \<^verbatim>\<open>virtuals\<close> declaration: a getter function, or an object
  \<^verbatim>\<open>{get, set}\<close> whose \<^verbatim>\<open>set\<close> may be missing.
\<close>

datatype virtual = Getter getter | GetSet getter "setter option"

text \<open>
  The class of a model: its \<^verbatim>\<open>virtuals\<close> declaration (\<open>None\<close>: none declared), its
  \<^verbatim>\<open>outputVirtuals\<close> flag, and the members of the base class \<^verbatim>\<open>Bookshelf.Model\<close>
  that the plugin calls and whose code lies outside this file: \<^verbatim>\<open>isNew()\<close>,
  \<^verbatim>\<open>saveMethod(options)\<close> and the base \<^verbatim>\<open>toJSON(options)\<close>. They are parameters
  here, so every result holds for any base class.
\<close>

record klass =
  virtuals :: "(string \<times> virtual) list option"
  outputVirtuals :: bool
  isNew :: "model \<Rightarrow> bool"
  saveMethod :: "model \<Rightarrow> obj \<Rightarrow> val"
  proto_toJSON :: "model \<Rightarrow> val \<Rightarrow> obj"

text \<open>\<^verbatim>\<open>this.virtuals && this.virtuals[name]\<close>: the entry declared under a name, if any.\<close>

definition lookup_virtual :: "klass \<Rightarrow> string \<Rightarrow> virtual option" where
  "lookup_virtual K name = (case virtuals K of None \<Rightarrow> None | Some reg \<Rightarrow> map_of reg name)"

text \<open>
  The getter of an entry (\<^verbatim>\<open>virtuals[name].get ? virtuals[name].get : virtuals[name]\<close>)
  and its setter (\<^verbatim>\<open>virtual.set\<close>, undefined on a function).
\<close>

fun getter_of :: "virtual \<Rightarrow> getter" where
  "getter_of (Getter g) = g"
| "getter_of (GetSet g s) = g"

fun setter_of :: "virtual \<Rightarrow> setter option" where
  "setter_of (Getter g) = None"
| "setter_of (GetSet g s) = s"

section \<open>The base class's accessors\<close>

text \<open>
  Modelled from the spec: the base class's \<^verbatim>\<open>get\<close> (\<^verbatim>\<open>proto.get\<close>), whose code is
  not in the plugin's file. The spec calls it the real attribute get: it reads the
  attribute set.
\<close>

definition proto_get :: "string \<Rightarrow> model \<Rightarrow> val" where
  "proto_get name m = lookup (attributes m) name"

text \<open>
  Modelled from the spec: the base class's \<^verbatim>\<open>set(key, value, options)\<close>
  (\<^verbatim>\<open>proto.set\<close>), whose code is not in the plugin's file. The spec calls it the
  underlying real-attribute set operation, with a bag and a single-key call shape: it
  writes the attributes it is given into the attribute set.
\<close>

fun proto_set :: "key \<Rightarrow> val \<Rightarrow> val \<Rightarrow> model \<Rightarrow> model" where
  "proto_set KNull value options m = m"
| "proto_set KUndefined value options m = m"
| "proto_set (KBag bag) value options m = m\<lparr>attributes := extend' (attributes m) bag\<rparr>"
| "proto_set (KName k) value options m = m\<lparr>attributes := assign (attributes m) k value\<rparr>"

section \<open>Reading virtuals\<close>

text \<open>\<^verbatim>\<open>getVirtual(model, virtualName, ...virtualParams)\<close>; undefined for an undeclared name.\<close>

definition getVirtual :: "klass \<Rightarrow> model \<Rightarrow> string \<Rightarrow> val list \<Rightarrow> error + val" where
  "getVirtual K m virtualName virtualParams =
     (case lookup_virtual K virtualName of
        None \<Rightarrow> Inr VUndefined
      | Some v \<Rightarrow> getter_of v m virtualParams)"

text \<open>
  \<^verbatim>\<open>typeof(params) === 'object' && params !== null ? params[virtualName] : undefined\<close>
\<close>

definition paramsForVirtual :: "val \<Rightarrow> string \<Rightarrow> val" where
  "paramsForVirtual params virtualName =
     (case params of VObj ps \<Rightarrow> lookup ps virtualName | _ \<Rightarrow> VUndefined)"

text \<open>
  The loop of \<^verbatim>\<open>getVirtuals\<close>: for every declared name, in order,
  \<^verbatim>\<open>attrs[virtualName] = getVirtual(model, virtualName, paramsForVirtual)\<close>. A getter
  that throws ends it.
\<close>

fun getVirtuals_loop :: "klass \<Rightarrow> model \<Rightarrow> val \<Rightarrow> string list \<Rightarrow> obj \<Rightarrow> error + obj" where
  "getVirtuals_loop K m params [] attrs = Inr attrs"
| "getVirtuals_loop K m params (virtualName # names) attrs =
     (case getVirtual K m virtualName [paramsForVirtual params virtualName] of
        Inl e \<Rightarrow> Inl e
      | Inr v \<Rightarrow> getVirtuals_loop K m params names (assign attrs virtualName v))"

definition getVirtuals :: "klass \<Rightarrow> model \<Rightarrow> val \<Rightarrow> error + obj" where
  "getVirtuals K m params =
     (case virtuals K of
        None \<Rightarrow> Inr []
      | Some reg \<Rightarrow> getVirtuals_loop K m params (map fst reg) [])"

text \<open>\<^verbatim>\<open>get(attr, ...args)\<close>: virtuals are fetched like normal properties.\<close>

definition get :: "klass \<Rightarrow> string \<Rightarrow> val list \<Rightarrow> model \<Rightarrow> error + val" where
  "get K attr args m =
     (if lookup_virtual K attr \<noteq> None then getVirtual K m attr args
      else Inr (proto_get attr m))"

text \<open>\<^verbatim>\<open>toJSON(options)\<close>.\<close>

definition toJSON :: "klass \<Rightarrow> val \<Rightarrow> model \<Rightarrow> error + obj" where
  "toJSON K options m =
     (let attrs = proto_toJSON K m options in
      if truthy options \<and> truthy (field options ''omitNew'') \<and> isNew K m then Inr attrs
      else if \<not> truthy options \<or> field options ''virtuals'' \<noteq> VBool False then
        if (truthy options \<and> field options ''virtuals'' = VBool True) \<or> outputVirtuals K then
          (case getVirtuals K m (and_field options ''virtualParams'') of
             Inl e \<Rightarrow> Inl e
           | Inr vs \<Rightarrow> Inr (extend' attrs vs))
        else Inr attrs
      else Inr attrs)"

section \<open>Writing virtuals\<close>

text \<open>
  The instance's \<^verbatim>\<open>set\<close> method as a setter sees it (\<^verbatim>\<open>this.set\<close>): key, value and
  options in, the error thrown (if any) and the instance state out.
\<close>

type_synonym set_fn = "key \<Rightarrow> val \<Rightarrow> val \<Rightarrow> model \<Rightarrow> error option \<times> model"

text \<open>
  Running a setter's body: its \<^verbatim>\<open>this.set(...)\<close> calls one after the other; a call
  that throws, or a \<^verbatim>\<open>throw\<close> of the setter's own, ends it.
\<close>

fun run_setter :: "set_fn \<Rightarrow> action list \<Rightarrow> model \<Rightarrow> error option \<times> model" where
  "run_setter this_set [] m = (None, m)"
| "run_setter this_set (CallSet k v opts # rest) m =
     (case this_set k v opts m of
        (Some e, m') \<Rightarrow> (Some e, m')
      | (None, m') \<Rightarrow> run_setter this_set rest m')"
| "run_setter this_set (Throw v # rest) m = (Some (Thrown v), m)"

text \<open>
  \<^verbatim>\<open>setVirtual.call(this, value, key)\<close>: for a declared virtual the setter, when there
  is one, is called with the value, and the result is \<^verbatim>\<open>true\<close>; for any other name
  nothing happens and the result is undefined (\<open>False\<close> here: only its truthiness is
  ever read).
\<close>

definition setVirtual :: "set_fn \<Rightarrow> klass \<Rightarrow> val \<Rightarrow> string \<Rightarrow> model \<Rightarrow> (error + bool) \<times> model" where
  "setVirtual this_set K value key m =
     (case lookup_virtual K key of
        None \<Rightarrow> (Inr False, m)
      | Some virtual \<Rightarrow>
          (case setter_of virtual of
             None \<Rightarrow> (Inr True, m)
           | Some s \<Rightarrow>
               (case run_setter this_set (s m value) m of
                  (Some e, m') \<Rightarrow> (Inl e, m')
                | (None, m') \<Rightarrow> (Inr True, m'))))"

text \<open>
  \<^verbatim>\<open>_.omitBy(key, _.bind(setVirtual, this))\<close>: lodash calls the predicate on every
  property of the bag, in order, and keeps the properties for which it is falsy.
\<close>

fun omitBy_setVirtual :: "set_fn \<Rightarrow> klass \<Rightarrow> obj \<Rightarrow> model \<Rightarrow> (error + obj) \<times> model" where
  "omitBy_setVirtual this_set K [] m = (Inr [], m)"
| "omitBy_setVirtual this_set K (p # ps) m =
     (case setVirtual this_set K (snd p) (fst p) m of
        (Inl e, m') \<Rightarrow> (Inl e, m')
      | (Inr b, m') \<Rightarrow>
          (case omitBy_setVirtual this_set K ps m' of
             (Inl e, m'') \<Rightarrow> (Inl e, m'')
           | (Inr nonVirtuals, m'') \<Rightarrow> (Inr (if b then nonVirtuals else p # nonVirtuals), m'')))"

text \<open>
  The body of \<^verbatim>\<open>set(key, value, options)\<close>, with the \<^verbatim>\<open>this.set\<close> that the setters
  it runs will call as a parameter. In the bag form the base \<^verbatim>\<open>set\<close> is called as
  \<^verbatim>\<open>proto.set.call(this, nonVirtuals, options)\<close>, with the third argument of this call in
  second place; in the single-key form it gets the arguments as they came.
\<close>

definition set_body :: "set_fn \<Rightarrow> klass \<Rightarrow> key \<Rightarrow> val \<Rightarrow> val \<Rightarrow> model \<Rightarrow> error option \<times> model" where
  "set_body this_set K key value options m =
     (case key of
        KNull \<Rightarrow> (None, m)
      | KUndefined \<Rightarrow> (None, m)
      | KBag bag \<Rightarrow>
          (let isPatching = (patchAttributes m \<noteq> None) in
           case omitBy_setVirtual this_set K bag m of
             (Inl e, m') \<Rightarrow> (Some e, m')
           | (Inr nonVirtuals, m') \<Rightarrow>
               (None, proto_set (KBag nonVirtuals) options VUndefined
                  (if isPatching
                   then m'\<lparr>patchAttributes :=
                          map_option (\<lambda>b. extend' b nonVirtuals) (patchAttributes m')\<rparr>
                   else m')))
      | KName k \<Rightarrow>
          (let isPatching = (patchAttributes m \<noteq> None) in
           case setVirtual this_set K value k m of
             (Inl e, m') \<Rightarrow> (Some e, m')
           | (Inr True, m') \<Rightarrow> (None, m')
           | (Inr False, m') \<Rightarrow>
               (None, proto_set (KName k) value options
                  (if isPatching
                   then m'\<lparr>patchAttributes :=
                          map_option (\<lambda>b. assign b k value) (patchAttributes m')\<rparr>
                   else m'))))"

text \<open>
  \<^verbatim>\<open>set(key, value, options)\<close>. A setter may call \<^verbatim>\<open>this.set\<close>, whose setters may
  call it again; the call stack is finite, and \<open>d\<close> is how many levels of such
  re-entry it has room for. A call beyond that throws the engine's \<open>StackOverflow\<close>.
\<close>

primrec set' :: "nat \<Rightarrow> klass \<Rightarrow> set_fn" where
  "set' 0 K = set_body (\<lambda>key value options m. (Some StackOverflow, m)) K"
| "set' (Suc d) K = set_body (set' d K) K"

section \<open>Saving\<close>

text \<open>
  What \<^verbatim>\<open>save\<close> returns: \<^verbatim>\<open>Promise.reject(e)\<close>, or whatever the base class's
  \<^verbatim>\<open>save\<close> returns for \<^verbatim>\<open>proto.save.call(this, attrs, options)\<close>. The base
  \<^verbatim>\<open>save\<close> is outside this file; the call is recorded with the attributes and the
  options it is handed.
\<close>

datatype promise = Rejected error | ProtoSave obj obj

text \<open>\<^verbatim>\<open>_.clone(value) || {}\<close> for the options: an options object, or none given.\<close>

definition clone_options :: "val \<Rightarrow> obj" where
  "clone_options v = (case v of VObj ob \<Rightarrow> ob | _ \<Rightarrow> [])"

text \<open>
  lodash \<^verbatim>\<open>isArrayLike\<close> on a plain object: its \<^verbatim>\<open>length\<close> is a number that
  \<^verbatim>\<open>isLength\<close> accepts (an integer from 0 to \<^verbatim>\<open>Number.MAX_SAFE_INTEGER\<close>).
\<close>

definition isArrayLike :: "obj \<Rightarrow> bool" where
  "isArrayLike ob =
     (case lookup ob ''length'' of
        VNum n \<Rightarrow> 0 \<le> n \<and> n \<le> 9007199254740991
      | _ \<Rightarrow> False)"

text \<open>
  The keys \<^verbatim>\<open>_.each(attrs, f)\<close> visits. lodash iterates an array-like collection by
  index, from 0 to \<^verbatim>\<open>length - 1\<close>, and any other object by its own keys, both fixed
  when the loop starts.
\<close>

definition each_keys :: "obj \<Rightarrow> string list" where
  "each_keys attrs =
     (if isArrayLike attrs
      then (case lookup attrs ''length'' of
              VNum n \<Rightarrow> map decimal [0..<nat n]
            | _ \<Rightarrow> [])
      else map fst attrs)"

text \<open>
  The loop of the patch branch:
  \<^verbatim>\<open>_.each(attrs, function (value, key) { if (setVirtual.call(this, value, key)) delete attrs[key]; })\<close>.
  The value is read when the key is visited. A setter that throws ends the loop.
\<close>

fun each_setVirtual :: "set_fn \<Rightarrow> klass \<Rightarrow> string list \<Rightarrow> obj \<Rightarrow> model \<Rightarrow> (error + obj) \<times> model" where
  "each_setVirtual this_set K [] attrs m = (Inr attrs, m)"
| "each_setVirtual this_set K (key # keys) attrs m =
     (case setVirtual this_set K (lookup attrs key) key m of
        (Inl e, m') \<Rightarrow> (Inl e, m')
      | (Inr b, m') \<Rightarrow>
          each_setVirtual this_set K keys (if b then delete_key key attrs else attrs) m')"

text \<open>
  The argument handling of \<^verbatim>\<open>save(key, value, options)\<close>, for both call shapes:
  \<^verbatim>\<open>attrs\<close> is a copy of the bag (empty for null) or \<^verbatim>\<open>{key: value}\<close>, and
  \<^verbatim>\<open>options\<close> a copy of the options given (the second argument after a bag, the
  third after a name), in which \<^verbatim>\<open>options.method = this.saveMethod(options)\<close> is
  then stored.
\<close>

definition save_attrs :: "key \<Rightarrow> val \<Rightarrow> obj" where
  "save_attrs key value = (case key of KName k \<Rightarrow> [(k, value)] | KBag bag \<Rightarrow> bag | _ \<Rightarrow> [])"

definition given_options :: "key \<Rightarrow> val \<Rightarrow> val \<Rightarrow> obj" where
  "given_options key value options =
     (case key of KName k \<Rightarrow> clone_options options | _ \<Rightarrow> clone_options value)"

definition save_options :: "klass \<Rightarrow> key \<Rightarrow> val \<Rightarrow> val \<Rightarrow> model \<Rightarrow> obj" where
  "save_options K key value options m =
     assign (given_options key value options) ''method''
       (saveMethod K m (given_options key value options))"

text \<open>The test \<^verbatim>\<open>options.method === 'update' && options.patch\<close>.\<close>

definition patch_save :: "klass \<Rightarrow> key \<Rightarrow> val \<Rightarrow> val \<Rightarrow> model \<Rightarrow> bool" where
  "patch_save K key value options m =
     (lookup (save_options K key value options m) ''method'' = VStr ''update'' \<and>
      truthy (lookup (save_options K key value options m) ''patch''))"

text \<open>
  \<^verbatim>\<open>save(key, value, options)\<close>. The \<^verbatim>\<open>try\<close> block is the loop and the merge of the
  buffer into \<^verbatim>\<open>attrs\<close>; \<^verbatim>\<open>catch\<close> turns an error into a rejected promise;
  \<^verbatim>\<open>finally\<close> deletes \<^verbatim>\<open>this.patchAttributes\<close> on both paths. The setters called
  from here reach \<^verbatim>\<open>set\<close> with room for \<open>d\<close> levels of re-entry.
\<close>

definition save :: "nat \<Rightarrow> klass \<Rightarrow> key \<Rightarrow> val \<Rightarrow> val \<Rightarrow> model \<Rightarrow> promise \<times> model" where
  "save d K key value options m =
     (let attrs = save_attrs key value;
          options1 = save_options K key value options m
      in
      if patch_save K key value options m then
        (case each_setVirtual (set' d K) K (each_keys attrs) attrs (m\<lparr>patchAttributes := Some []\<rparr>) of
           (Inl e, m') \<Rightarrow> (Rejected e, m'\<lparr>patchAttributes := None\<rparr>)
         | (Inr attrs', m') \<Rightarrow>
             (ProtoSave
                (case patchAttributes m' of None \<Rightarrow> attrs' | Some b \<Rightarrow> extend' attrs' b)
                options1,
              m'\<lparr>patchAttributes := None\<rparr>))
      else (ProtoSave attrs options1, m))"

section \<open>The lodash methods mixed into the model\<close>

text \<open>
  lodash \<^verbatim>\<open>keys\<close>, \<^verbatim>\<open>values\<close>, \<^verbatim>\<open>toPairs\<close>, \<^verbatim>\<open>invert\<close>, \<^verbatim>\<open>pick\<close> and
  \<^verbatim>\<open>omit\<close> on a plain object; \<^verbatim>\<open>pick\<close> and \<^verbatim>\<open>omit\<close> with plain property
  names (no deep paths).
\<close>

definition lodash_keys :: "obj \<Rightarrow> string list" where
  "lodash_keys ob = map fst ob"

definition lodash_values :: "obj \<Rightarrow> val list" where
  "lodash_values ob = map snd ob"

definition lodash_toPairs :: "obj \<Rightarrow> (string \<times> val) list" where
  "lodash_toPairs ob = ob"

definition lodash_invert :: "obj \<Rightarrow> obj" where
  "lodash_invert ob = fold (\<lambda>p r. assign r (toString (snd p)) (VStr (fst p))) ob []"

definition lodash_pick :: "string list \<Rightarrow> obj \<Rightarrow> obj" where
  "lodash_pick names ob =
     fold (\<lambda>k r. if k \<in> fst ` set ob then assign r k (lookup ob k) else r) names []"

definition lodash_omit :: "string list \<Rightarrow> obj \<Rightarrow> obj" where
  "lodash_omit names ob = filter (\<lambda>p. fst p \<notin> set names) ob"

text \<open>
  Every mixed-in method is
  \<^verbatim>\<open>_[method].apply(_, [_.extend({}, this.attributes, getVirtuals(this))].concat(args))\<close>:
  the lodash function \<open>f\<close> on the attributes merged with the virtuals' values.
\<close>

definition modelMethod :: "klass \<Rightarrow> (obj \<Rightarrow> 'a) \<Rightarrow> model \<Rightarrow> error + 'a" where
  "modelMethod K f m =
     (case getVirtuals K m VUndefined of
        Inl e \<Rightarrow> Inl e
      | Inr vs \<Rightarrow> Inr (f (extend' (extend' [] (attributes m)) vs)))"

definition keys :: "klass \<Rightarrow> model \<Rightarrow> error + string list" where
  "keys K m = modelMethod K lodash_keys m"

definition values' :: "klass \<Rightarrow> model \<Rightarrow> error + val list" where
  "values' K m = modelMethod K lodash_values m"

definition toPairs :: "klass \<Rightarrow> model \<Rightarrow> error + (string \<times> val) list" where
  "toPairs K m = modelMethod K lodash_toPairs m"

definition invert :: "klass \<Rightarrow> model \<Rightarrow> error + obj" where
  "invert K m = modelMethod K lodash_invert m"

definition pick :: "klass \<Rightarrow> string list \<Rightarrow> model \<Rightarrow> error + obj" where
  "pick K names m = modelMethod K (lodash_pick names) m"

definition omit :: "klass \<Rightarrow> string list \<Rightarrow> model \<Rightarrow> error + obj" where
  "omit K names m = modelMethod K (lodash_omit names) m"

section \<open>What the spec says a write does\<close>

text \<open>
  The spec describes a bag write, and the virtual part of a patch save, as a partition
  of the keys. These definitions follow its words; the theorems below compare the code
  with them.

  \<open>setter_calls\<close>: one call per key of the bag that is a virtual with a setter, with
  that key's value, in the bag's order; a virtual without a setter and a name that is no
  virtual contribute none. \<open>invoke_setters\<close> makes the calls one after the other, up to
  the first that throws. \<open>non_virtuals\<close> is the rest of the partition: the properties
  whose name is no virtual, unchanged.
\<close>

definition setter_calls :: "klass \<Rightarrow> obj \<Rightarrow> (setter \<times> val) list" where
  "setter_calls K bag =
     List.map_filter
       (\<lambda>p. case lookup_virtual K (fst p) of
               None \<Rightarrow> None
             | Some v \<Rightarrow> map_option (\<lambda>s. (s, snd p)) (setter_of v))
       bag"

fun invoke_setters :: "set_fn \<Rightarrow> (setter \<times> val) list \<Rightarrow> model \<Rightarrow> error option \<times> model" where
  "invoke_setters this_set [] m = (None, m)"
| "invoke_setters this_set (c # cs) m =
     (case run_setter this_set (fst c m (snd c)) m of
        (Some e, m') \<Rightarrow> (Some e, m')
      | (None, m') \<Rightarrow> invoke_setters this_set cs m')"

definition non_virtuals :: "klass \<Rightarrow> obj \<Rightarrow> obj" where
  "non_virtuals K bag = filter (\<lambda>p. lookup_virtual K (fst p) = None) bag"

text \<open>
  The \<^verbatim>\<open>this.set\<close> that a setter reaches when it was called from \<open>set' d\<close>: one
  level of the stack is used up.
\<close>

definition nested_set :: "nat \<Rightarrow> klass \<Rightarrow> set_fn" where
  "nested_set d K =
     (case d of
        0 \<Rightarrow> (\<lambda>key value options m. (Some StackOverflow, m))
      | Suc d' \<Rightarrow> set' d' K)"

text \<open>
  Two versions of \<^verbatim>\<open>this.set\<close> of which the second has at least the stack of the
  first: whatever the first returns or throws, short of the stack overflow, the second
  does too.
\<close>

definition deeper :: "set_fn \<Rightarrow> set_fn \<Rightarrow> bool" where
  "deeper ts ts' =
     (\<forall>k v opts m. fst (ts k v opts m) \<noteq> Some StackOverflow \<longrightarrow> ts' k v opts m = ts k v opts m)"

text \<open>The PatchCapture state of an instance: Capturing while the buffer exists.\<close>

definition patching :: "model \<Rightarrow> bool" where
  "patching m = (patchAttributes m \<noteq> None)"

section \<open>An example class\<close>

text \<open>
  The class of the spec's patch-save scenario: a virtual \<^verbatim>\<open>fullName\<close> whose setter is
  \<^verbatim>\<open>function (x) { this.set('first', x.split(' ')[0]); this.set('last', x.split(' ')[1]); }\<close>
  and a getter-only virtual \<^verbatim>\<open>greeting\<close>. An instance is new while it has no
  \<^verbatim>\<open>id\<close>, and is saved by insert then and by update otherwise.
\<close>

fun split :: "char \<Rightarrow> string \<Rightarrow> string list" where
  "split c [] = [[]]"
| "split c (x # xs) =
     (if x = c then [] # split c xs
      else (case split c xs of [] \<Rightarrow> [[x]] | w # ws \<Rightarrow> (x # w) # ws))"

definition item :: "string list \<Rightarrow> nat \<Rightarrow> val" where
  "item ws i = (if i < length ws then VStr (ws ! i) else VUndefined)"

definition fullName_set :: setter where
  "fullName_set m x =
     (case x of
        VStr s \<Rightarrow>
          [CallSet (KName ''first'') (item (split CHR '' '' s) 0) VUndefined,
           CallSet (KName ''last'') (item (split CHR '' '' s) 1) VUndefined]
      | _ \<Rightarrow> [Throw (VStr ''TypeError: x.split is not a function'')])"

definition fullName_get :: getter where
  "fullName_get m args =
     Inr (VStr (toString (proto_get ''first'' m) @ '' '' @ toString (proto_get ''last'' m)))"

definition greeting_get :: getter where
  "greeting_get m args = Inr (VStr (''Hello '' @ toString (proto_get ''first'' m)))"

definition person_isNew :: "model \<Rightarrow> bool" where
  "person_isNew m = (lookup (attributes m) ''id'' = VUndefined \<or> lookup (attributes m) ''id'' = VNull)"

definition person :: klass where
  "person =
     \<lparr> virtuals = Some [(''fullName'', GetSet fullName_get (Some fullName_set)),
                        (''greeting'', Getter greeting_get)],
       outputVirtuals = True,
       isNew = person_isNew,
       saveMethod = (\<lambda>m options. if person_isNew m then VStr ''insert'' else VStr ''update''),
       proto_toJSON = (\<lambda>m options. attributes m) \<rparr>"

definition ada :: model where
  "ada = \<lparr> attributes = [(''id'', VNum 1)], patchAttributes = None \<rparr>"

text \<open>
  A second instance, not yet persisted, with an attribute that has the name of a virtual.
\<close>

definition draft :: model where
  "draft =
     \<lparr> attributes = [(''first'', VStr ''Ada''), (''greeting'', VStr ''stored'')],
       patchAttributes = None \<rparr>"

section \<open>Plain objects: assignment and merge\<close>

lemma map_of_assign: "map_of (assign ob k v) = (map_of ob)(k \<mapsto> v)"
  by (induction ob) (auto simp: fun_eq_iff)

lemma keys_assign: "fst ` set (assign ob k v) = insert k (fst ` set ob)"
  by (induction ob) auto

lemma distinct_assign: "distinct (map fst ob) \<Longrightarrow> distinct (map fst (assign ob k v))"
  by (induction ob) (auto simp: keys_assign)


lemma extend'_Nil: "extend' d [] = d"
  by (simp add: extend'_def)

lemma extend'_Cons: "extend' d (p # s) = extend' (assign d (fst p) (snd p)) s"
  by (simp add: extend'_def)

lemma map_of_extend'_rev: "map_of (extend' d s) = map_of d ++ map_of (rev s)"
  by (induction s arbitrary: d)
     (auto simp: extend'_Nil extend'_Cons map_of_assign fun_eq_iff map_add_def
           split: option.splits)

lemma map_of_rev_distinct: "distinct (map fst s) \<Longrightarrow> map_of (rev s) = map_of s"
proof (induction s)
  case Nil
  then show ?case by simp
next
  case (Cons p s)
  then have "map_of s (fst p) = None"
    by (simp add: map_of_eq_None_iff)
  with Cons show ?case
    by (cases p) (auto simp: fun_eq_iff map_add_def split: option.splits)
qed

lemma map_of_extend': "distinct (map fst s) \<Longrightarrow> map_of (extend' d s) = map_of d ++ map_of s"
  by (simp add: map_of_extend'_rev map_of_rev_distinct)

lemma keys_extend': "fst ` set (extend' d s) = fst ` set d \<union> fst ` set s"
  by (induction s arbitrary: d) (auto simp: extend'_Nil extend'_Cons keys_assign)

lemma distinct_extend': "distinct (map fst d) \<Longrightarrow> distinct (map fst (extend' d s))"
  by (induction s arbitrary: d) (auto simp: extend'_Nil extend'_Cons distinct_assign)

section \<open>Reading: the values of the virtuals\<close>

lemma getVirtuals_loop_distinct:
  "getVirtuals_loop K m params names acc = Inr vs \<Longrightarrow> distinct (map fst acc) \<Longrightarrow>
   distinct (map fst vs)"
  by (induction names arbitrary: acc) (auto simp: distinct_assign split: sum.splits)

lemma getVirtuals_loop_keys:
  "getVirtuals_loop K m params names acc = Inr vs \<Longrightarrow> fst ` set vs = fst ` set acc \<union> set names"
  by (induction names arbitrary: acc) (auto simp: keys_assign split: sum.splits)

lemma getVirtuals_loop_map_of:
  "getVirtuals_loop K m params names acc = Inr vs \<Longrightarrow>
   map_of vs name =
     (if name \<in> set names
      then (case getVirtual K m name [paramsForVirtual params name] of
              Inr x \<Rightarrow> Some x
            | Inl e \<Rightarrow> None)
      else map_of acc name)"
  by (induction names arbitrary: acc) (auto simp: map_of_assign split: sum.splits)

lemma getVirtuals_distinct: "getVirtuals K m params = Inr vs \<Longrightarrow> distinct (map fst vs)"
  by (auto simp: getVirtuals_def split: option.splits dest: getVirtuals_loop_distinct)

lemma getVirtuals_map_of:
  assumes "getVirtuals K m params = Inr vs"
  shows "map_of vs name =
     (case lookup_virtual K name of
        None \<Rightarrow> None
      | Some v \<Rightarrow>
          (case getter_of v m [paramsForVirtual params name] of
             Inr x \<Rightarrow> Some x
           | Inl e \<Rightarrow> None))"
proof (cases "virtuals K")
  case None
  with assms show ?thesis by (simp add: getVirtuals_def lookup_virtual_def)
next
  case (Some reg)
  with assms have loop: "getVirtuals_loop K m params (map fst reg) [] = Inr vs"
    by (simp add: getVirtuals_def)
  show ?thesis
  proof (cases "map_of reg name")
    case None
    then have "name \<notin> set (map fst reg)" by (simp add: map_of_eq_None_iff)
    with getVirtuals_loop_map_of [OF loop, of name] None Some show ?thesis
      by (simp add: lookup_virtual_def)
  next
    case (Some v)
    then have "name \<in> set (map fst reg)"
      by (metis map_of_eq_None_iff option.distinct(1) set_map)
    with getVirtuals_loop_map_of [OF loop, of name] Some \<open>virtuals K = Some reg\<close> show ?thesis
      by (simp add: lookup_virtual_def getVirtual_def)
  qed
qed

lemma getVirtuals_keys:
  assumes "getVirtuals K m params = Inr vs"
  shows "fst ` set vs = {name. lookup_virtual K name \<noteq> None}"
proof (cases "virtuals K")
  case None
  with assms show ?thesis by (simp add: getVirtuals_def lookup_virtual_def)
next
  case (Some reg)
  with assms have "getVirtuals_loop K m params (map fst reg) [] = Inr vs"
    by (simp add: getVirtuals_def)
  from getVirtuals_loop_keys [OF this] have "fst ` set vs = fst ` set reg"
    by simp
  moreover have "{name. map_of reg name \<noteq> None} = fst ` set reg"
    by (auto simp: map_of_eq_None_iff)
  ultimately show ?thesis using Some by (simp add: lookup_virtual_def)
qed

text \<open>
  Merging the virtuals' values into an object: under the name of a virtual stands the
  value of its getter, whatever stood there; every other name keeps what it had.
\<close>

lemma merged_map_of:
  assumes gv: "getVirtuals K m params = Inr vs"
  shows "map_of (extend' base vs) name =
          (case lookup_virtual K name of
             None \<Rightarrow> map_of base name
           | Some v \<Rightarrow>
               (case getter_of v m [paramsForVirtual params name] of
                  Inr x \<Rightarrow> Some x
                | Inl e \<Rightarrow> None))"
proof -
  have "map_of (extend' base vs) name = (map_of base ++ map_of vs) name"
    using getVirtuals_distinct [OF gv] by (simp add: map_of_extend')
  moreover have "lookup_virtual K name \<noteq> None \<Longrightarrow> map_of vs name \<noteq> None"
    using getVirtuals_keys [OF gv] by (metis (mono_tags, lifting) map_of_eq_None_iff mem_Collect_eq)
  ultimately show ?thesis
    using getVirtuals_map_of [OF gv, of name]
    by (auto simp: map_add_def split: option.splits sum.splits)
qed

lemma toJSON_cases:
  "toJSON K options m =
     (if truthy options \<and> truthy (field options ''omitNew'') \<and> isNew K m
      then Inr (proto_toJSON K m options)
      else if field options ''virtuals'' = VBool True \<or>
              (field options ''virtuals'' \<noteq> VBool False \<and> outputVirtuals K)
      then (case getVirtuals K m (and_field options ''virtualParams'') of
              Inl e \<Rightarrow> Inl e
            | Inr vs \<Rightarrow> Inr (extend' (proto_toJSON K m options) vs))
      else Inr (proto_toJSON K m options))"
proof -
  have "\<not> truthy options \<Longrightarrow> field options ''virtuals'' = VUndefined"
    by (cases options) (simp_all add: field_def)
  then show ?thesis
    by (auto simp: toJSON_def Let_def)
qed

section \<open>Writing: the bag form against the spec's partition\<close>


lemma setter_calls_Nil: "setter_calls K [] = []"
  by (simp add: setter_calls_def map_filter_simps)

lemma setter_calls_Cons:
  "setter_calls K (p # ps) =
     (case lookup_virtual K (fst p) of
        None \<Rightarrow> setter_calls K ps
      | Some v \<Rightarrow>
          (case setter_of v of
             None \<Rightarrow> setter_calls K ps
           | Some s \<Rightarrow> (s, snd p) # setter_calls K ps))"
  by (simp add: setter_calls_def map_filter_simps split: option.splits)

lemma omitBy_setVirtual_spec:
  "omitBy_setVirtual ts K bag m =
     (case invoke_setters ts (setter_calls K bag) m of
        (Some e, m') \<Rightarrow> (Inl e, m')
      | (None, m') \<Rightarrow> (Inr (non_virtuals K bag), m'))"
proof (induction bag arbitrary: m)
  case Nil
  then show ?case by (simp add: setter_calls_Nil non_virtuals_def)
next
  case (Cons p ps)
  show ?case
  proof (cases "lookup_virtual K (fst p)")
    case None
    then show ?thesis
      by (simp add: Cons.IH setVirtual_def setter_calls_Cons non_virtuals_def
               split: prod.splits option.splits)
  next
    case (Some v)
    then show ?thesis
      by (cases "setter_of v")
         (simp_all add: Cons.IH setVirtual_def setter_calls_Cons non_virtuals_def
               split: prod.splits option.splits)
  qed
qed

section \<open>What every \<^verbatim>\<open>set\<close> call keeps\<close>












section \<open>Two invariants of the capture buffer\<close>






section \<open>The loop of the patch branch against the spec's partition\<close>





section \<open>Saving: the guard, the loop and the outcome\<close>







lemma save_leaves_no_buffer:
  assumes "patchAttributes m = None" and "save d K key value options m = (r, m2)"
  shows "patchAttributes m2 = None"
  using assms by (auto simp: save_def Let_def split: if_splits prod.splits sum.splits)

lemma save_outcome:
  assumes "save d K key value options m = (r, m2)"
  shows "case r of
           ProtoSave a opts \<Rightarrow> opts = save_options K key value options m
         | Rejected e \<Rightarrow>
             patch_save K key value options m \<and>
             (\<exists>m'. each_setVirtual (set' d K) K (each_keys (save_attrs key value))
                      (save_attrs key value) (m\<lparr>patchAttributes := Some []\<rparr>) = (Inl e, m'))"
  using assms by (auto simp: save_def Let_def split: if_splits prod.splits sum.splits)

section \<open>The depth of the call stack\<close>

text \<open>
  The bound \<open>d\<close> matters only to calls that overflow: an outcome of \<^verbatim>\<open>set\<close> or
  \<^verbatim>\<open>save\<close> that is not the stack overflow is the outcome at every greater depth.
\<close>

lemma deeperD:
  "deeper ts ts' \<Longrightarrow> ts k v opts m = (r, m') \<Longrightarrow> r \<noteq> Some StackOverflow \<Longrightarrow>
   ts' k v opts m = (r, m')"
  by (simp add: deeper_def)

lemma run_setter_deeper:
  assumes "deeper ts ts'"
  shows "run_setter ts acts m = (r, m') \<Longrightarrow> r \<noteq> Some StackOverflow \<Longrightarrow>
         run_setter ts' acts m = (r, m')"
proof (induction acts arbitrary: m)
  case Nil
  then show ?case by simp
next
  case (Cons a acts)
  show ?case
  proof (cases a)
    case (CallSet k v opts)
    obtain r1 m1 where step: "ts k v opts m = (r1, m1)" by (cases "ts k v opts m")
    show ?thesis
    proof (cases r1)
      case None
      with step have "ts' k v opts m = (None, m1)"
        using deeperD [OF assms step] by simp
      with Cons step None CallSet show ?thesis by simp
    next
      case (Some e)
      with Cons.prems step CallSet have "r = Some e" "m' = m1" by simp_all
      with Cons.prems Some step have "ts' k v opts m = (Some e, m1)"
        using deeperD [OF assms step] by simp
      with \<open>r = Some e\<close> \<open>m' = m1\<close> CallSet show ?thesis by simp
    qed
  next
    case (Throw v)
    with Cons.prems show ?thesis by simp
  qed
qed

lemma setVirtual_deeper:
  assumes "deeper ts ts'"
    and "setVirtual ts K value key m = (r, m')" and "r \<noteq> Inl StackOverflow"
  shows "setVirtual ts' K value key m = (r, m')"
proof (cases "lookup_virtual K key")
  case None
  with assms show ?thesis by (simp add: setVirtual_def)
next
  case (Some v)
  show ?thesis
  proof (cases "setter_of v")
    case None
    with Some assms show ?thesis by (simp add: setVirtual_def)
  next
    case (Some s)
    obtain r1 m1 where run: "run_setter ts (s m value) m = (r1, m1)"
      by (cases "run_setter ts (s m value) m")
    with assms(2,3) Some \<open>lookup_virtual K key = Some v\<close>
    have "r1 \<noteq> Some StackOverflow"
      by (auto simp: setVirtual_def split: option.splits)
    from run_setter_deeper [OF assms(1) run this] run assms(2) Some
      \<open>lookup_virtual K key = Some v\<close>
    show ?thesis by (simp add: setVirtual_def)
  qed
qed

lemma invoke_setters_deeper:
  assumes "deeper ts ts'"
  shows "invoke_setters ts cs m = (r, m') \<Longrightarrow> r \<noteq> Some StackOverflow \<Longrightarrow>
         invoke_setters ts' cs m = (r, m')"
proof (induction cs arbitrary: m)
  case Nil
  then show ?case by simp
next
  case (Cons c cs)
  obtain r1 m1 where run: "run_setter ts (fst c m (snd c)) m = (r1, m1)"
    by (cases "run_setter ts (fst c m (snd c)) m")
  show ?case
  proof (cases r1)
    case None
    with run_setter_deeper [OF assms run] have "run_setter ts' (fst c m (snd c)) m = (None, m1)"
      by simp
    with Cons run None show ?thesis by simp
  next
    case (Some e)
    with Cons.prems run have "r = Some e" "m' = m1" by simp_all
    with Cons.prems Some run_setter_deeper [OF assms run]
    have "run_setter ts' (fst c m (snd c)) m = (Some e, m1)" by simp
    with \<open>r = Some e\<close> \<open>m' = m1\<close> show ?thesis by simp
  qed
qed

lemma each_setVirtual_deeper:
  assumes "deeper ts ts'"
  shows "each_setVirtual ts K ks attrs m = (r, m') \<Longrightarrow> r \<noteq> Inl StackOverflow \<Longrightarrow>
         each_setVirtual ts' K ks attrs m = (r, m')"
proof (induction ks arbitrary: attrs m)
  case Nil
  then show ?case by simp
next
  case (Cons k ks)
  obtain r1 m1 where step: "setVirtual ts K (lookup attrs k) k m = (r1, m1)"
    by (cases "setVirtual ts K (lookup attrs k) k m")
  show ?case
  proof (cases r1)
    case (Inl e)
    with Cons.prems step have "r = Inl e" "m' = m1" by simp_all
    with Cons.prems Inl setVirtual_deeper [OF assms step]
    have "setVirtual ts' K (lookup attrs k) k m = (Inl e, m1)" by simp
    with \<open>r = Inl e\<close> \<open>m' = m1\<close> show ?thesis by simp
  next
    case (Inr b)
    with setVirtual_deeper [OF assms step]
    have "setVirtual ts' K (lookup attrs k) k m = (Inr b, m1)" by simp
    with Cons step Inr show ?thesis by simp
  qed
qed

lemma set_body_deeper:
  assumes "deeper ts ts'"
  shows "deeper (set_body ts K) (set_body ts' K)"
  unfolding deeper_def
proof (intro allI impI)
  fix key "value" options m
  assume ok: "fst (set_body ts K key value options m) \<noteq> Some StackOverflow"
  show "set_body ts' K key value options m = set_body ts K key value options m"
  proof (cases key)
    case KNull
    then show ?thesis by (simp add: set_body_def)
  next
    case KUndefined
    then show ?thesis by (simp add: set_body_def)
  next
    case (KBag bag)
    obtain r m' where run: "invoke_setters ts (setter_calls K bag) m = (r, m')"
      by (cases "invoke_setters ts (setter_calls K bag) m")
    with ok KBag have "r \<noteq> Some StackOverflow"
      by (auto simp: set_body_def omitBy_setVirtual_spec split: option.splits)
    from invoke_setters_deeper [OF assms run this] run KBag show ?thesis
      by (simp add: set_body_def omitBy_setVirtual_spec)
  next
    case (KName k)
    obtain r m' where run: "setVirtual ts K value k m = (r, m')"
      by (cases "setVirtual ts K value k m")
    with ok KName have "r \<noteq> Inl StackOverflow"
      by (auto simp: set_body_def split: sum.splits)
    from setVirtual_deeper [OF assms run this] run KName show ?thesis
      by (simp add: set_body_def)
  qed
qed

lemma set'_Suc_deeper: "deeper (set' d K) (set' (Suc d) K)"
proof (induction d)
  case 0
  have "deeper (\<lambda>key value options m. (Some StackOverflow, m)) (set' 0 K)"
    by (simp add: deeper_def)
  from set_body_deeper [OF this] show ?case by simp
next
  case (Suc d)
  from set_body_deeper [OF Suc] show ?case by simp
qed

lemma deeper_trans: "deeper a b \<Longrightarrow> deeper b c \<Longrightarrow> deeper a c"
  by (auto simp: deeper_def)

lemma deeper_refl: "deeper a a"
  by (simp add: deeper_def)

lemma set'_deeper: "d \<le> d' \<Longrightarrow> deeper (set' d K) (set' d' K)"
proof (induction d')
  case 0
  then show ?case by (simp add: deeper_refl)
next
  case (Suc d')
  show ?case
  proof (cases "d = Suc d'")
    case True
    then show ?thesis by (simp only: deeper_refl)
  next
    case False
    with Suc.prems have "d \<le> d'" by simp
    from deeper_trans [OF Suc.IH [OF this] set'_Suc_deeper] show ?thesis .
  qed
qed

lemma set'_depth_independent:
  assumes "set' d K key value options m = (r, m')" and "r \<noteq> Some StackOverflow" and "d \<le> d'"
  shows "set' d' K key value options m = (r, m')"
  using deeperD [OF set'_deeper [OF assms(3)] assms(1,2)] .

lemma save_depth_independent:
  assumes "save d K key value options m = (r, m')" and "r \<noteq> Rejected StackOverflow" and "d \<le> d'"
  shows "save d' K key value options m = (r, m')"
proof (cases "patch_save K key value options m")
  case False
  with assms(1) show ?thesis by (auto simp: save_def)
next
  case True
  let ?attrs = "save_attrs key value"
  obtain r1 m1 where loop:
    "each_setVirtual (set' d K) K (each_keys ?attrs) ?attrs (m\<lparr>patchAttributes := Some []\<rparr>) = (r1, m1)"
    by (cases "each_setVirtual (set' d K) K (each_keys ?attrs) ?attrs (m\<lparr>patchAttributes := Some []\<rparr>)")
  with assms(1,2) True have "r1 \<noteq> Inl StackOverflow"
    by (auto simp: save_def)
  from each_setVirtual_deeper [OF set'_deeper [OF assms(3)] loop this] loop assms(1) True
  show ?thesis by (simp add: save_def)
qed

section \<open>Evaluating the example\<close>

lemmas person_eval =
  person_def ada_def draft_def person_isNew_def lookup_def field_def and_field_def
  lookup_virtual_def getVirtuals_def getVirtual_def paramsForVirtual_def extend'_def
  fullName_get_def greeting_get_def fullName_set_def proto_get_def item_def
  setVirtual_def set_body_def delete_key_def clone_options_def each_keys_def isArrayLike_def
  save_def save_attrs_def save_options_def given_options_def patch_save_def

lemmas write_eval = person_eval setter_calls_def non_virtuals_def nested_set_def patching_def

section \<open>The accessor \<^verbatim>\<open>get\<close>\<close>



section \<open>Serialization\<close>

text \<open>
  Claim C8. For every call \<^verbatim>\<open>toJSON(options)\<close> with \<^verbatim>\<open>options.omitNew\<close> set on
  an instance that is new, the result is the base class's representation unchanged:
  no virtual is merged, whatever \<^verbatim>\<open>options.virtuals\<close> and the class's
  \<^verbatim>\<open>outputVirtuals\<close> say.
\<close>

theorem toJSON_omitNew:
  "truthy options \<Longrightarrow> truthy (field options ''omitNew'') \<Longrightarrow> isNew K m \<Longrightarrow>
   toJSON K options m = Inr (proto_toJSON K m options)"
  by (simp add: toJSON_def)

theorem toJSON_omitNew_witness:
  "truthy (VObj [(''omitNew'', VBool True), (''virtuals'', VBool True)]) \<and>
   truthy (field (VObj [(''omitNew'', VBool True), (''virtuals'', VBool True)]) ''omitNew'') \<and>
   isNew person draft \<and> outputVirtuals person \<and>
   toJSON person (VObj [(''omitNew'', VBool True), (''virtuals'', VBool True)]) draft =
     Inr [(''first'', VStr ''Ada''), (''greeting'', VStr ''stored'')]"
proof -
  let ?o = "VObj [(''omitNew'', VBool True), (''virtuals'', VBool True)]"
  have h1: "truthy ?o" by simp
  have h2: "truthy (field ?o ''omitNew'')" by (simp add: field_def lookup_def)
  have h3: "isNew person draft" by (simp add: person_eval)
  show ?thesis
    using h1 h2 h3 toJSON_omitNew [OF h1 h2 h3] by (simp add: person_def draft_def)
qed

text \<open>
  Claim C5, as the code has it. For every call \<^verbatim>\<open>toJSON(options)\<close> that the
  \<^verbatim>\<open>omitNew\<close> rule does not end (the instance is not new, or \<^verbatim>\<open>omitNew\<close> is not
  set), the virtuals are merged into the output exactly when \<^verbatim>\<open>options.virtuals\<close> is
  \<^verbatim>\<open>true\<close>, or \<^verbatim>\<open>options.virtuals\<close> is anything but \<^verbatim>\<open>false\<close> (unset, undefined
  or not a boolean) and \<^verbatim>\<open>outputVirtuals\<close> is enabled; \<^verbatim>\<open>options.virtuals === false\<close>
  always excludes them. When they are merged, every registered virtual's getter is called
  with \<^verbatim>\<open>options.virtualParams[name]\<close> as its argument, and its value stands under the
  virtual's name in place of any attribute of that name, the other names keeping their
  values; a getter that throws makes the call throw.
\<close>

theorem toJSON_inclusion:
  "toJSON K options m =
     (if truthy options \<and> truthy (field options ''omitNew'') \<and> isNew K m
      then Inr (proto_toJSON K m options)
      else if field options ''virtuals'' = VBool True \<or>
              (field options ''virtuals'' \<noteq> VBool False \<and> outputVirtuals K)
      then (case getVirtuals K m (and_field options ''virtualParams'') of
              Inl e \<Rightarrow> Inl e
            | Inr vs \<Rightarrow> Inr (extend' (proto_toJSON K m options) vs))
      else Inr (proto_toJSON K m options))
   \<and> (\<forall>vs name. getVirtuals K m params = Inr vs \<longrightarrow>
        map_of (extend' base vs) name =
          (case lookup_virtual K name of
             None \<Rightarrow> map_of base name
           | Some v \<Rightarrow>
               (case getter_of v m [paramsForVirtual params name] of
                  Inr x \<Rightarrow> Some x
                | Inl e \<Rightarrow> None)))"
  using toJSON_cases [of K options m] merged_map_of [of K m params _ base] by blast

text \<open>
  On the example: \<^verbatim>\<open>{virtuals: true}\<close> includes the virtuals though the class default
  is off, \<^verbatim>\<open>{virtuals: false}\<close> excludes them though it is on, and without options the
  default decides. The virtual \<^verbatim>\<open>greeting\<close> overwrites the attribute of its name.
\<close>

theorem toJSON_inclusion_witness:
  "toJSON (person\<lparr>outputVirtuals := False\<rparr>) (VObj [(''virtuals'', VBool True)]) draft =
     Inr [(''first'', VStr ''Ada''), (''greeting'', VStr ''Hello Ada''),
          (''fullName'', VStr ''Ada undefined'')] \<and>
   toJSON person (VObj [(''virtuals'', VBool False)]) draft =
     Inr [(''first'', VStr ''Ada''), (''greeting'', VStr ''stored'')] \<and>
   toJSON person VUndefined draft =
     Inr [(''first'', VStr ''Ada''), (''greeting'', VStr ''Hello Ada''),
          (''fullName'', VStr ''Ada undefined'')] \<and>
   toJSON (person\<lparr>outputVirtuals := False\<rparr>) VUndefined draft =
     Inr [(''first'', VStr ''Ada''), (''greeting'', VStr ''stored'')] \<and>
   getVirtuals person draft VUndefined =
     Inr [(''fullName'', VStr ''Ada undefined''), (''greeting'', VStr ''Hello Ada'')] \<and>
   map_of (extend' (attributes draft)
             [(''fullName'', VStr ''Ada undefined''), (''greeting'', VStr ''Hello Ada'')])
          ''greeting'' = Some (VStr ''Hello Ada'')"
proof -
  have gv: "getVirtuals person draft VUndefined =
     Inr [(''fullName'', VStr ''Ada undefined''), (''greeting'', VStr ''Hello Ada'')]"
    by (simp add: person_eval)
  show ?thesis
    using gv
      toJSON_inclusion [of "person\<lparr>outputVirtuals := False\<rparr>" "VObj [(''virtuals'', VBool True)]" draft]
      toJSON_inclusion [of person "VObj [(''virtuals'', VBool False)]" draft]
      toJSON_inclusion [of person VUndefined draft VUndefined "attributes draft",
        THEN conjunct2, rule_format, OF gv, of "''greeting''"]
      toJSON_inclusion [of person VUndefined draft]
      toJSON_inclusion [of "person\<lparr>outputVirtuals := False\<rparr>" VUndefined draft]
    by (simp add: person_eval)
qed

text \<open>
  The claim as the spec words it fails twice. With \<^verbatim>\<open>{virtuals: true, omitNew: true}\<close>
  on a new instance \<^verbatim>\<open>options.virtuals\<close> is \<^verbatim>\<open>true\<close> and no virtual is merged; with
  \<^verbatim>\<open>{virtuals: 0}\<close> the option is neither \<^verbatim>\<open>true\<close> nor unset and the virtuals are
  merged, by the class default.
\<close>

theorem toJSON_inclusion_counterexample:
  "field (VObj [(''virtuals'', VBool True), (''omitNew'', VBool True)]) ''virtuals'' = VBool True \<and>
   toJSON person (VObj [(''virtuals'', VBool True), (''omitNew'', VBool True)]) draft =
     Inr [(''first'', VStr ''Ada''), (''greeting'', VStr ''stored'')] \<and>
   field (VObj [(''virtuals'', VNum 0)]) ''virtuals'' \<noteq> VBool True \<and>
   field (VObj [(''virtuals'', VNum 0)]) ''virtuals'' \<noteq> VUndefined \<and>
   toJSON person (VObj [(''virtuals'', VNum 0)]) draft =
     Inr [(''first'', VStr ''Ada''), (''greeting'', VStr ''Hello Ada''),
          (''fullName'', VStr ''Ada undefined'')]"
  by (simp add: toJSON_def person_eval)

section \<open>The accessor \<^verbatim>\<open>set\<close>\<close>

text \<open>
  Claim C9. For every call \<^verbatim>\<open>set(key, ...)\<close> whose key is null or undefined, the call
  returns the instance as it was: no setter runs, no attribute is written and nothing is
  thrown.
\<close>

theorem set_null_returns_this:
  "set' d K KNull value options m = (None, m) \<and> set' d K KUndefined value options m = (None, m)"
  by (cases d) (simp_all add: set_body_def)

theorem set_null_returns_this_witness:
  "set' 2 person KNull (VStr ''x'') VUndefined draft = (None, draft) \<and>
   set' 2 person KUndefined (VStr ''x'') VUndefined draft = (None, draft)"
  using set_null_returns_this [of 2 person "VStr ''x''" VUndefined draft] by simp

text \<open>
  Claim C6. For every single-key write \<^verbatim>\<open>set('v', x)\<close> where \<open>v\<close> is a registered
  virtual without a setter, the call is a silent no-op: nothing is thrown, the instance
  (its attribute set included) is what it was, and a \<^verbatim>\<open>get('v')\<close> after it returns
  what the getter computes from that unchanged instance.
\<close>

theorem set_readonly_virtual_noop:
  assumes "lookup_virtual K v = Some virt" and "setter_of virt = None"
  shows "set' d K (KName v) value options m = (None, m) \<and>
         get K v args (snd (set' d K (KName v) value options m)) = getter_of virt m args"
proof -
  have "set' d K (KName v) value options m = (None, m)"
    using assms by (cases d) (simp_all add: set_body_def setVirtual_def)
  then show ?thesis
    using assms by (simp add: get_def getVirtual_def)
qed

theorem set_readonly_virtual_noop_witness:
  "lookup_virtual person ''greeting'' = Some (Getter greeting_get) \<and>
   setter_of (Getter greeting_get) = None \<and>
   set' 1 person (KName ''greeting'') (VNum 5) VUndefined draft = (None, draft) \<and>
   get person ''greeting'' [] (snd (set' 1 person (KName ''greeting'') (VNum 5) VUndefined draft)) =
     Inr (VStr ''Hello Ada'')"
proof -
  have h1: "lookup_virtual person ''greeting'' = Some (Getter greeting_get)"
    by (simp add: person_def lookup_virtual_def)
  have h2: "setter_of (Getter greeting_get) = None" by simp
  show ?thesis
    using h1 h2 set_readonly_virtual_noop [OF h1 h2, of 1 "VNum 5" VUndefined draft "[]"]
    by (simp add: person_eval)
qed






section \<open>Patch saves\<close>




text \<open>
  Claim C3. For every patch save in which a virtual setter throws (the loop over the
  payload ends with the error \<open>e\<close>): the save returns a rejected promise carrying
  \<open>e\<close>, and not the base class's \<^verbatim>\<open>save\<close>, which is never called; the buffer is
  deleted from the instance on this path too; and any later save on the instance starts
  without a buffer and ends without one, handing over to the base \<^verbatim>\<open>save\<close> unless a
  setter throws during that later call itself.
\<close>

theorem save_setter_throws:
  assumes patch: "patch_save K key value options m"
    and throws: "each_setVirtual (set' d K) K (each_keys (save_attrs key value))
                   (save_attrs key value) (m\<lparr>patchAttributes := Some []\<rparr>) = (Inl e, m')"
  shows "save d K key value options m = (Rejected e, m'\<lparr>patchAttributes := None\<rparr>) \<and>
         patchAttributes (snd (save d K key value options m)) = None \<and>
         (\<forall>key2 value2 options2 r m2.
            save d K key2 value2 options2 (snd (save d K key value options m)) = (r, m2) \<longrightarrow>
            patchAttributes m2 = None \<and>
            (case r of
               ProtoSave a opts \<Rightarrow>
                 opts = save_options K key2 value2 options2 (snd (save d K key value options m))
             | Rejected e2 \<Rightarrow>
                 patch_save K key2 value2 options2 (snd (save d K key value options m)) \<and>
                 (\<exists>m2'. each_setVirtual (set' d K) K (each_keys (save_attrs key2 value2))
                          (save_attrs key2 value2)
                          ((snd (save d K key value options m))\<lparr>patchAttributes := Some []\<rparr>) =
                        (Inl e2, m2'))))"
proof -
  have s: "save d K key value options m = (Rejected e, m'\<lparr>patchAttributes := None\<rparr>)"
    using patch throws by (simp add: save_def)
  then have n: "patchAttributes (snd (save d K key value options m)) = None" by simp
  show ?thesis
    using s n save_leaves_no_buffer [OF n] save_outcome by blast
qed

text \<open>
  On the example: \<^verbatim>\<open>save({fullName: 5}, {patch: true})\<close> is rejected with the
  setter's TypeError and leaves the instance as it was; the save of
  \<^verbatim>\<open>{fullName: 'Ada Lovelace'}\<close> after it goes through.
\<close>

theorem save_setter_throws_witness:
  "patch_save person (KBag [(''fullName'', VNum 5)]) (VObj [(''patch'', VBool True)]) VUndefined ada \<and>
   each_setVirtual (set' 1 person) person
     (each_keys (save_attrs (KBag [(''fullName'', VNum 5)]) (VObj [(''patch'', VBool True)])))
     (save_attrs (KBag [(''fullName'', VNum 5)]) (VObj [(''patch'', VBool True)]))
     (ada\<lparr>patchAttributes := Some []\<rparr>) =
     (Inl (Thrown (VStr ''TypeError: x.split is not a function'')), ada\<lparr>patchAttributes := Some []\<rparr>) \<and>
   save 1 person (KBag [(''fullName'', VNum 5)]) (VObj [(''patch'', VBool True)]) VUndefined ada =
     (Rejected (Thrown (VStr ''TypeError: x.split is not a function'')), ada) \<and>
   save 1 person (KBag [(''fullName'', VStr ''Ada Lovelace'')]) (VObj [(''patch'', VBool True)]) VUndefined
     (snd (save 1 person (KBag [(''fullName'', VNum 5)]) (VObj [(''patch'', VBool True)]) VUndefined ada)) =
     (ProtoSave [(''first'', VStr ''Ada''), (''last'', VStr ''Lovelace'')]
                [(''patch'', VBool True), (''method'', VStr ''update'')],
      \<lparr> attributes = [(''id'', VNum 1), (''first'', VStr ''Ada''), (''last'', VStr ''Lovelace'')],
        patchAttributes = None \<rparr>)"
proof -
  let ?key = "KBag [(''fullName'', VNum 5)]"
  let ?opts = "VObj [(''patch'', VBool True)]"
  have h1: "patch_save person ?key ?opts VUndefined ada"
    by (simp add: write_eval)
  have h2: "each_setVirtual (set' 1 person) person (each_keys (save_attrs ?key ?opts))
       (save_attrs ?key ?opts) (ada\<lparr>patchAttributes := Some []\<rparr>) =
     (Inl (Thrown (VStr ''TypeError: x.split is not a function'')), ada\<lparr>patchAttributes := Some []\<rparr>)"
    by (simp add: write_eval)
  from save_setter_throws [OF h1 h2]
  have first: "save 1 person ?key ?opts VUndefined ada =
      (Rejected (Thrown (VStr ''TypeError: x.split is not a function'')),
       ada\<lparr>patchAttributes := Some [], patchAttributes := None\<rparr>)"
    by (rule conjunct1)
  have same: "ada\<lparr>patchAttributes := Some [], patchAttributes := None\<rparr> = ada"
    by (simp add: ada_def)
  have second: "save 1 person (KBag [(''fullName'', VStr ''Ada Lovelace'')]) ?opts VUndefined ada =
     (ProtoSave [(''first'', VStr ''Ada''), (''last'', VStr ''Lovelace'')]
                [(''patch'', VBool True), (''method'', VStr ''update'')],
      \<lparr> attributes = [(''id'', VNum 1), (''first'', VStr ''Ada''), (''last'', VStr ''Lovelace'')],
        patchAttributes = None \<rparr>)"
    by (simp add: write_eval)
  show ?thesis
    using h1 h2 first second by (simp only: same snd_conv simp_thms)
qed

section \<open>The lodash methods of the model\<close>

text \<open>
  Claim C10. The model has \<^verbatim>\<open>keys\<close>, \<^verbatim>\<open>values\<close>, \<^verbatim>\<open>toPairs\<close>,
  \<^verbatim>\<open>invert\<close>, \<^verbatim>\<open>pick\<close> and \<^verbatim>\<open>omit\<close>, and each is the lodash function of
  that name on the attribute set merged with the value of every registered virtual (a
  virtual's value standing in place of an attribute of the same name); \<^verbatim>\<open>keys()\<close>
  returns the attribute names together with the virtual names. A getter that throws makes
  each of them throw.
\<close>

theorem modelMethods_merged:
  "(case getVirtuals K m VUndefined of
      Inl e \<Rightarrow>
        keys K m = Inl e \<and> values' K m = Inl e \<and> toPairs K m = Inl e \<and>
        invert K m = Inl e \<and> pick K names m = Inl e \<and> omit K names m = Inl e
    | Inr vs \<Rightarrow>
        (let merged = extend' (extend' [] (attributes m)) vs in
         keys K m = Inr (lodash_keys merged) \<and>
         values' K m = Inr (lodash_values merged) \<and>
         toPairs K m = Inr (lodash_toPairs merged) \<and>
         invert K m = Inr (lodash_invert merged) \<and>
         pick K names m = Inr (lodash_pick names merged) \<and>
         omit K names m = Inr (lodash_omit names merged) \<and>
         set (lodash_keys merged) =
           fst ` set (attributes m) \<union> {name. lookup_virtual K name \<noteq> None} \<and>
         (distinct (map fst (attributes m)) \<longrightarrow>
            (\<forall>name. map_of merged name =
               (case lookup_virtual K name of
                  None \<Rightarrow> map_of (attributes m) name
                | Some v \<Rightarrow>
                    (case getter_of v m [VUndefined] of
                       Inr x \<Rightarrow> Some x
                     | Inl e \<Rightarrow> None))))))"
proof (cases "getVirtuals K m VUndefined")
  case (Inl e)
  then show ?thesis
    by (simp add: keys_def values'_def toPairs_def invert_def pick_def omit_def modelMethod_def)
next
  case (Inr vs)
  let ?merged = "extend' (extend' [] (attributes m)) vs"
  have ks: "set (lodash_keys ?merged) =
           fst ` set (attributes m) \<union> {name. lookup_virtual K name \<noteq> None}"
    using getVirtuals_keys [OF Inr] by (simp add: lodash_keys_def keys_extend')
  have vals: "map_of ?merged name =
               (case lookup_virtual K name of
                  None \<Rightarrow> map_of (attributes m) name
                | Some v \<Rightarrow>
                    (case getter_of v m [VUndefined] of
                       Inr x \<Rightarrow> Some x
                     | Inl e \<Rightarrow> None))"
    if "distinct (map fst (attributes m))" for name
    using merged_map_of [OF Inr, of "extend' [] (attributes m)" name] that
    by (simp add: map_of_extend' paramsForVirtual_def split: option.splits)
  show ?thesis
    using ks vals
    by (simp add: Inr keys_def values'_def toPairs_def invert_def pick_def omit_def
                  modelMethod_def Let_def)
qed

theorem modelMethods_merged_witness:
  "getVirtuals person draft VUndefined =
     Inr [(''fullName'', VStr ''Ada undefined''), (''greeting'', VStr ''Hello Ada'')] \<and>
   keys person draft = Inr [''first'', ''greeting'', ''fullName''] \<and>
   values' person draft = Inr [VStr ''Ada'', VStr ''Hello Ada'', VStr ''Ada undefined''] \<and>
   pick person [''greeting'', ''id''] draft = Inr [(''greeting'', VStr ''Hello Ada'')] \<and>
   omit person [''greeting'', ''id''] draft =
     Inr [(''first'', VStr ''Ada''), (''fullName'', VStr ''Ada undefined'')]"
proof -
  have gv: "getVirtuals person draft VUndefined =
     Inr [(''fullName'', VStr ''Ada undefined''), (''greeting'', VStr ''Hello Ada'')]"
    by (simp add: person_eval)
  show ?thesis
    using gv modelMethods_merged [of person draft "[''greeting'', ''id'']"]
    by (simp add: person_eval lodash_keys_def lodash_values_def lodash_pick_def lodash_omit_def
          keys_def values'_def pick_def omit_def modelMethod_def)
qed

end
